theory Spec2Isabelle
  imports Main "HOL-Library.Word"
begin

section \<open>Strings of the page script\<close>

text \<open>
  A JavaScript string is a sequence of UTF-16 code units. Field values are modelled as
  lists of 16-bit words; the fixed ASCII texts of the script (messages, class names,
  markup) are HOL strings. \<open>js\<close> reads an ASCII literal as code units.
\<close>

type_synonym code_unit = "16 word"
type_synonym jsstring = "code_unit list"

definition js :: "string \<Rightarrow> jsstring" where
  "js s = map of_char s"

text \<open>
  The code units that \<^verbatim>\<open>String.prototype.trim\<close> strips and that the class escape
  \<^verbatim>\<open>\s\<close> matches (ECMAScript WhiteSpace and LineTerminator): TAB, LF, VT, FF, CR,
  SPACE, NBSP, U+1680, U+2000 to U+200A, U+2028, U+2029, U+202F, U+205F, U+3000, U+FEFF.
\<close>

definition is_js_space :: "code_unit \<Rightarrow> bool" where
  "is_js_space c \<longleftrightarrow>
     c \<in> {0x9, 0xA, 0xB, 0xC, 0xD, 0x20, 0xA0, 0x1680, 0x2028, 0x2029, 0x202F,
          0x205F, 0x3000, 0xFEFF}
     \<or> (0x2000 \<le> c \<and> c \<le> 0x200A)"

definition trim :: "jsstring \<Rightarrow> jsstring" where
  "trim s = rev (dropWhile is_js_space (rev (dropWhile is_js_space s)))"

definition AT :: code_unit where
  "AT = 0x40"

definition DOT :: code_unit where
  "DOT = 0x2E"

section \<open>The regular expression of the email check\<close>

text \<open>
  The fragment of regular expressions that the literal
  \<^verbatim>\<open>/^[^\s@]+@[^\s@]+\.[^\s@]+$/\<close> uses: a sequence of pieces between the anchors
  \<^verbatim>\<open>^\<close> and \<^verbatim>\<open>$\<close>, each piece one atom or an atom under \<^verbatim>\<open>+\<close>; an atom is a
  literal code unit or a negated class of \<^verbatim>\<open>\s\<close> and literals.
\<close>

datatype class_item = Esc_s | Lit code_unit

datatype atom = Ch code_unit | NotIn "class_item list"

datatype piece = One atom | Plus atom

fun item_has :: "class_item \<Rightarrow> code_unit \<Rightarrow> bool" where
  "item_has Esc_s c = is_js_space c"
| "item_has (Lit d) c = (c = d)"

fun atom_ok :: "atom \<Rightarrow> code_unit \<Rightarrow> bool" where
  "atom_ok (Ch d) c = (c = d)"
| "atom_ok (NotIn items) c = (\<not> list_ex (\<lambda>i. item_has i c) items)"

text \<open>
  \<open>regex_test\<close> is the backtracking matcher of \<^verbatim>\<open>RegExp.prototype.test\<close> on an
  anchored sequence: \<^verbatim>\<open>+\<close> is greedy, it takes one more code unit first and gives it
  back when the rest of the pattern fails.
\<close>

fun regex_test :: "piece list \<Rightarrow> jsstring \<Rightarrow> bool" where
  "regex_test [] [] = True"
| "regex_test [] (c # cs) = False"
| "regex_test (One a # ps) [] = False"
| "regex_test (One a # ps) (c # cs) = (atom_ok a c \<and> regex_test ps cs)"
| "regex_test (Plus a # ps) [] = False"
| "regex_test (Plus a # ps) (c # cs) =
     (atom_ok a c \<and> (regex_test (Plus a # ps) cs \<or> regex_test ps cs))"

definition emailRegex :: "piece list" where
  "emailRegex =
     [Plus (NotIn [Esc_s, Lit AT]), One (Ch AT),
      Plus (NotIn [Esc_s, Lit AT]), One (Ch DOT),
      Plus (NotIn [Esc_s, Lit AT])]"

section \<open>Fields, their containers and the page\<close>

text \<open>
  A form control as \<open>validateField\<close> reads and writes it: \<^verbatim>\<open>value\<close>, the default value
  that \<^verbatim>\<open>form.reset()\<close> restores, the \<^verbatim>\<open>required\<close> attribute, \<^verbatim>\<open>type\<close>, the class
  list, the two inline styles, and the identity of \<^verbatim>\<open>parentNode\<close>.
\<close>

record field =
  f_value :: jsstring
  f_default :: jsstring
  f_required :: bool
  f_type :: string
  f_classes :: "string list"
  f_borderColor :: string
  f_boxShadow :: string
  f_parent :: nat

text \<open>
  An element inside a field's container: its identity, class tokens, inline style text and
  \<^verbatim>\<open>innerHTML\<close>. The container of a field is the list of the elements that
  \<^verbatim>\<open>parentNode.querySelector\<close> searches, in document order. Every parent has a list
  of its own: markup in which the parent of one field lies inside the parent of another,
  so that the outer search also finds the elements of the inner one, is not modelled.
\<close>

record elem =
  e_id :: nat
  e_classes :: "string list"
  e_css :: string
  e_html :: string

text \<open>
  What a scheduled callback does when it runs: the auto-dismiss timeout of a notification
  (with its timer handle), or the \<^verbatim>\<open>onComplete\<close> of the exit tween of a notification.
\<close>

datatype callback = Timeout nat nat | Tween nat

datatype dom_error = NotFoundError

record toast =
  n_html :: string
  n_background :: string

record request =
  r_url :: string
  r_method :: string

text \<open>
  The page: the form controls by identity, the containers by identity, the counter that
  names created elements, the submit button, the notifications attached to
  \<^verbatim>\<open>document.body\<close> (in order), their contents and click listeners (each listener
  holds the timer handle it clears), the counter of timer handles, the scheduled callbacks
  with their due times in milliseconds, the clock, the requests issued by \<^verbatim>\<open>fetch\<close>,
  the exceptions that escaped a callback, and the animation frames of the browser:
  \<open>frame st x\<close> is the time of the first frame at or after the time \<open>x\<close>.
\<close>

record page =
  controls :: "nat \<Rightarrow> field"
  kids :: "nat \<Rightarrow> elem list"
  next_id :: nat
  btn_disabled :: bool
  btn_html :: string
  body :: "nat list"
  toasts :: "nat \<Rightarrow> toast"
  listeners :: "nat \<Rightarrow> nat option"
  next_timer :: nat
  queue :: "(nat \<times> callback) list"
  now :: nat
  fetch_log :: "request list"
  uncaught :: "dom_error list"
  frame :: "nat \<Rightarrow> nat"

section \<open>Field validation\<close>

definition is_error_message :: "elem \<Rightarrow> bool" where
  "is_error_message e \<longleftrightarrow> ''error-message'' \<in> set (e_classes e)"

text \<open>\<^verbatim>\<open>parent.querySelector('.error-message')\<close>: the first matching element, if any.\<close>

definition querySelector :: "elem list \<Rightarrow> elem option" where
  "querySelector es = find is_error_message es"

fun remove_first :: "('a \<Rightarrow> bool) \<Rightarrow> 'a list \<Rightarrow> 'a list" where
  "remove_first P [] = []"
| "remove_first P (x # xs) = (if P x then xs else x # remove_first P xs)"

fun update_first :: "('a \<Rightarrow> bool) \<Rightarrow> ('a \<Rightarrow> 'a) \<Rightarrow> 'a list \<Rightarrow> 'a list" where
  "update_first P g [] = []"
| "update_first P g (x # xs) = (if P x then g x # xs else x # update_first P g xs)"

definition classList_add :: "string \<Rightarrow> string list \<Rightarrow> string list" where
  "classList_add c cs = (if c \<in> set cs then cs else cs @ [c])"

definition classList_remove :: "string \<Rightarrow> string list \<Rightarrow> string list" where
  "classList_remove c cs = removeAll c cs"

definition set_field :: "nat \<Rightarrow> (field \<Rightarrow> field) \<Rightarrow> page \<Rightarrow> page" where
  "set_field i g st = st\<lparr>controls := (controls st)(i := g (controls st i))\<rparr>"

definition set_kids :: "nat \<Rightarrow> (elem list \<Rightarrow> elem list) \<Rightarrow> page \<Rightarrow> page" where
  "set_kids p g st = st\<lparr>kids := (kids st)(p := g (kids st p))\<rparr>"

definition removeFieldError :: "page \<Rightarrow> nat \<Rightarrow> page" where
  "removeFieldError st i =
     (let p = f_parent (controls st i);
          st1 = (case querySelector (kids st p) of
                   Some errorElement \<Rightarrow> set_kids p (remove_first is_error_message) st
                 | None \<Rightarrow> st)
      in set_field i (\<lambda>f. f\<lparr>f_borderColor := [], f_boxShadow := []\<rparr>) st1)"

text \<open>
  The style text and the markup that \<open>showFieldError\<close> gives the error element; the line
  breaks and indentation of the template literal are left out of the style text.
\<close>

definition error_css :: string where
  "error_css = ''color: #ef4444; font-size: 0.875rem; margin-top: 0.25rem; display: flex; align-items: center; gap: 0.25rem;''"

definition error_icon :: string where
  "error_icon = ''<i class=\"fas fa-exclamation-circle\" aria-hidden=\"true\"></i>''"

definition showFieldError :: "page \<Rightarrow> nat \<Rightarrow> string \<Rightarrow> page" where
  "showFieldError st i message =
     (let p = f_parent (controls st i);
          st1 = set_field i (\<lambda>f. f\<lparr>f_classes := classList_add ''error'' (f_classes f)\<rparr>) st;
          st2 = (case querySelector (kids st1 p) of
                   None \<Rightarrow>
                     (set_kids p (\<lambda>es. es @ [\<lparr>e_id = next_id st1, e_classes = [''error-message''],
                                               e_css = error_css, e_html = []\<rparr>]) st1)
                       \<lparr>next_id := Suc (next_id st1)\<rparr>
                 | Some errorElement \<Rightarrow> st1);
          st3 = set_kids p
                  (update_first is_error_message (\<lambda>e. e\<lparr>e_html := error_icon @ message\<rparr>)) st2
      in set_field i
           (\<lambda>f. f\<lparr>f_borderColor := ''#ef4444'',
                  f_boxShadow := ''0 0 0 3px rgba(239, 68, 68, 0.1)''\<rparr>) st3)"

text \<open>
  The two locals \<^verbatim>\<open>isValid\<close> and \<^verbatim>\<open>errorMessage\<close> of \<open>validateField\<close>, assigned in the
  order of the source: the required check first, the email check after it.
\<close>

definition check_field :: "field \<Rightarrow> bool \<times> string" where
  "check_field f =
     (let v = trim (f_value f);
          r0 = (True, []);
          r1 = (if f_required f \<and> v = [] then (False, ''This field is required.'') else r0);
          r2 = (if f_type f = ''email'' \<and> v \<noteq> []
                then (if \<not> regex_test emailRegex v
                      then (False, ''Please enter a valid email address.'') else r1)
                else r1)
      in r2)"

definition validateField :: "page \<Rightarrow> nat \<Rightarrow> bool \<times> page" where
  "validateField st i =
     (let st1 = set_field i (\<lambda>f. f\<lparr>f_classes := classList_remove ''error'' (f_classes f)\<rparr>) st;
          st2 = removeFieldError st1 i;
          (isValid, errorMessage) = check_field (controls st i)
      in (isValid, if \<not> isValid then showFieldError st2 i errorMessage else st2))"

text \<open>
  A form: its controls in document order and its \<^verbatim>\<open>action\<close>. \<open>validateForm\<close> collects
  the controls with the \<^verbatim>\<open>required\<close> attribute and runs \<open>validateField\<close> on each of them
  in turn (\<^verbatim>\<open>forEach\<close>), lowering \<^verbatim>\<open>isValid\<close> on a failure.
\<close>

record form =
  fm_fields :: "nat list"
  fm_action :: string

fun validate_each :: "nat list \<Rightarrow> bool \<Rightarrow> page \<Rightarrow> bool \<times> page" where
  "validate_each [] isValid st = (isValid, st)"
| "validate_each (i # rest) isValid st =
     (case validateField st i of
        (ok, st') \<Rightarrow> validate_each rest (if \<not> ok then False else isValid) st')"

definition requiredFields :: "page \<Rightarrow> form \<Rightarrow> nat list" where
  "requiredFields st fm = filter (\<lambda>i. f_required (controls st i)) (fm_fields fm)"

definition validateForm :: "page \<Rightarrow> form \<Rightarrow> bool \<times> page" where
  "validateForm st fm = validate_each (requiredFields st fm) True st"

section \<open>Notifications\<close>

definition icons :: "string \<Rightarrow> string" where
  "icons ty =
     (if ty = ''success'' then ''fas fa-check-circle''
      else if ty = ''error'' then ''fas fa-exclamation-circle''
      else if ty = ''info'' then ''fas fa-info-circle''
      else if ty = ''warning'' then ''fas fa-exclamation-triangle''
      else ''undefined'')"

definition colors :: "string \<Rightarrow> string" where
  "colors ty =
     (if ty = ''success'' then ''linear-gradient(135deg, #10b981, #059669)''
      else if ty = ''error'' then ''linear-gradient(135deg, #ef4444, #dc2626)''
      else if ty = ''info'' then ''linear-gradient(135deg, #3b82f6, #2563eb)''
      else if ty = ''warning'' then ''linear-gradient(135deg, #f59e0b, #d97706)''
      else ''undefined'')"

text \<open>The delay handed to \<^verbatim>\<open>setTimeout\<close>, in milliseconds.\<close>

definition dismiss_delay :: "string \<Rightarrow> nat" where
  "dismiss_delay ty = (if ty = ''error'' then 5000 else 3000)"

text \<open>The exit tween of \<open>dismissNotification\<close> lasts 0.4 seconds.\<close>

definition exit_duration :: nat where
  "exit_duration = 400"

text \<open>
  \<open>dismissNotification\<close> starts the exit tween. The animation library runs the
  \<^verbatim>\<open>onComplete\<close> of a tween on an animation frame: the first one at or after the end
  of the tween.
\<close>

definition dismissNotification :: "page \<Rightarrow> nat \<Rightarrow> page" where
  "dismissNotification st n =
     st\<lparr>queue := queue st @ [(frame st (now st + exit_duration), Tween n)]\<rparr>"

text \<open>
  \<open>showNotification\<close> creates the element, appends it to the body, schedules the
  auto-dismiss and registers the click listener, which keeps the timer handle. The entry
  tween changes the looks only and has no callback.
\<close>

definition showNotification :: "page \<Rightarrow> string \<Rightarrow> string \<Rightarrow> page" where
  "showNotification st message ty =
     (let notification = next_id st;
          st1 = st\<lparr>next_id := Suc notification,
                   toasts := (toasts st)(notification :=
                     \<lparr>n_html = ''<i class=\"'' @ icons ty @ ''\" aria-hidden=\"true\"></i> '' @ message,
                      n_background = colors ty\<rparr>),
                   body := body st @ [notification]\<rparr>;
          dismissTimeout = next_timer st1;
          st2 = st1\<lparr>next_timer := Suc dismissTimeout,
                    queue := queue st1 @
                      [(now st1 + dismiss_delay ty, Timeout dismissTimeout notification)]\<rparr>
      in st2\<lparr>listeners := (listeners st2)(notification \<mapsto> dismissTimeout)\<rparr>)"

fun is_timeout :: "nat \<Rightarrow> callback \<Rightarrow> bool" where
  "is_timeout h (Timeout h' n) = (h' = h)"
| "is_timeout h (Tween n) = False"

definition clearTimeout :: "page \<Rightarrow> nat \<Rightarrow> page" where
  "clearTimeout st h = st\<lparr>queue := filter (\<lambda>(due, k). \<not> is_timeout h k) (queue st)\<rparr>"

text \<open>A click on a notification runs its listener.\<close>

definition click :: "page \<Rightarrow> nat \<Rightarrow> page" where
  "click st n =
     (case listeners st n of
        None \<Rightarrow> st
      | Some dismissTimeout \<Rightarrow> dismissNotification (clearTimeout st dismissTimeout) n)"

text \<open>
  \<^verbatim>\<open>document.body.removeChild\<close> throws when the node is not a child of the body.
\<close>

definition removeChild :: "nat list \<Rightarrow> nat \<Rightarrow> dom_error + nat list" where
  "removeChild b n = (if n \<in> set b then Inr (remove1 n b) else Inl NotFoundError)"

text \<open>
  The \<^verbatim>\<open>onComplete\<close> of the exit tween: the guard reads \<^verbatim>\<open>notification.parentNode\<close>,
  which is the body while the notification is attached and null afterwards. An exception
  of \<open>removeChild\<close> would escape the callback.
\<close>

definition onComplete :: "page \<Rightarrow> nat \<Rightarrow> page" where
  "onComplete st n =
     (if n \<in> set (body st)
      then (case removeChild (body st) n of
              Inl e \<Rightarrow> st\<lparr>uncaught := uncaught st @ [e]\<rparr>
            | Inr b \<Rightarrow> st\<lparr>body := b\<rparr>)
      else st)"

fun run_callback :: "page \<Rightarrow> callback \<Rightarrow> page" where
  "run_callback st (Timeout h n) = dismissNotification st n"
| "run_callback st (Tween n) = onComplete st n"

text \<open>
  The event loop: a callback runs when its due time comes, the earliest first and, among
  equals, the one scheduled first. \<open>advance st t\<close> lets the time pass until
  \<open>t\<close> with no other event.
\<close>

fun earliest :: "(nat \<times> callback) list \<Rightarrow> (nat \<times> callback) option" where
  "earliest [] = None"
| "earliest (x # xs) =
     (case earliest xs of
        None \<Rightarrow> Some x
      | Some y \<Rightarrow> if fst x \<le> fst y then Some x else Some y)"

fun weight :: "nat \<times> callback \<Rightarrow> nat" where
  "weight (due, Timeout h n) = 2"
| "weight (due, Tween n) = 1"

lemma earliest_mem: "earliest q = Some x \<Longrightarrow> x \<in> set q"
  by (induction q arbitrary: x) (auto split: option.splits if_splits)

lemma weight_remove1:
  "x \<in> set q \<Longrightarrow> sum_list (map weight (remove1 x q)) + weight x = sum_list (map weight q)"
  by (induction q) auto

function advance :: "page \<Rightarrow> nat \<Rightarrow> page" where
  "advance st t =
     (case earliest (queue st) of
        None \<Rightarrow> st\<lparr>now := max (now st) t\<rparr>
      | Some (due, k) \<Rightarrow>
          if due \<le> t
          then advance (run_callback (st\<lparr>queue := remove1 (due, k) (queue st),
                                      now := max (now st) due\<rparr>) k) t
          else st\<lparr>now := max (now st) t\<rparr>)"
  by pat_completeness auto
termination
proof (relation "measure (\<lambda>(st, t). sum_list (map weight (queue st)))")
  show "wf (measure (\<lambda>(st, t). sum_list (map weight (queue st))))"
    by simp
next
  fix st :: page and t :: nat and x2 :: "nat \<times> callback" and due :: nat and k :: callback
  assume e: "earliest (queue st) = Some x2" and x: "(due, k) = x2" and "due \<le> t"
  from e x have "(due, k) \<in> set (queue st)"
    by (simp add: earliest_mem)
  then have w: "sum_list (map weight (remove1 (due, k) (queue st))) + weight (due, k)
                = sum_list (map weight (queue st))"
    by (rule weight_remove1)
  show "((run_callback (st\<lparr>queue := remove1 (due, k) (queue st), now := max (now st) due\<rparr>) k, t),
         (st, t)) \<in> measure (\<lambda>(st, t). sum_list (map weight (queue st)))"
    using w by (cases k) (simp_all add: dismissNotification_def onComplete_def removeChild_def)
qed

declare advance.simps [simp del]

text \<open>One turn of the event loop: the callback is taken off the queue and run at its time.\<close>

definition pop :: "page \<Rightarrow> nat \<Rightarrow> callback \<Rightarrow> page" where
  "pop s due k = run_callback (s\<lparr>queue := remove1 (due, k) (queue s), now := max (now s) due\<rparr>) k"

section \<open>The contact submission\<close>

datatype fetch_outcome = Responded nat | Rejected

text \<open>\<^verbatim>\<open>response.ok\<close>: the status is in the range 200 to 299.\<close>

definition response_ok :: "nat \<Rightarrow> bool" where
  "response_ok status \<longleftrightarrow> 200 \<le> status \<and> status \<le> 299"

text \<open>What the handler holds across the \<^verbatim>\<open>await\<close>.\<close>

record pending =
  p_form :: form
  p_originalButtonContent :: string

text \<open>\<^verbatim>\<open>form.reset()\<close> puts every control of the form back to its default value.\<close>

definition form_reset :: "form \<Rightarrow> page \<Rightarrow> page" where
  "form_reset fm st =
     st\<lparr>controls := (\<lambda>i. if i \<in> set (fm_fields fm)
                           then (controls st i)\<lparr>f_value := f_default (controls st i)\<rparr>
                           else controls st i)\<rparr>"

definition sending_label :: string where
  "sending_label = ''<i class=\"fas fa-spinner fa-spin\"></i> Sending...''"

definition success_text :: string where
  "success_text = ''Thank you! Your message has been sent.''"

definition rejected_text :: string where
  "rejected_text = ''Sorry, there was an error sending your message. Please try again.''"

definition network_text :: string where
  "network_text = ''Network error. Please try again later.''"

text \<open>
  \<open>handleContactSubmit\<close> up to the \<^verbatim>\<open>await\<close>: it returns early when the form is
  invalid; otherwise it disables the button, swaps the label and issues one request. The
  request is recorded by its URL and method; its body and headers play no part in what
  the handler does afterwards.
\<close>

definition submit_begin :: "page \<Rightarrow> form \<Rightarrow> page \<times> pending option" where
  "submit_begin st fm =
     (let originalButtonContent = btn_html st;
          (ok, st1) = validateForm st fm
      in if \<not> ok then (st1, None)
         else (st1\<lparr>btn_disabled := True, btn_html := sending_label,
                   fetch_log := fetch_log st1 @ [\<lparr>r_url = fm_action fm, r_method = ''POST''\<rparr>]\<rparr>,
               Some \<lparr>p_form = fm, p_originalButtonContent = originalButtonContent\<rparr>))"

text \<open>
  \<open>handleContactSubmit\<close> from the settling of the request on: the \<^verbatim>\<open>try\<close> branch for
  a response, the \<^verbatim>\<open>catch\<close> branch for a rejection, then the \<^verbatim>\<open>finally\<close> block.
\<close>

definition submit_settle :: "fetch_outcome \<Rightarrow> pending \<Rightarrow> page \<Rightarrow> page" where
  "submit_settle out p st =
     (let st1 = (case out of
                   Responded status \<Rightarrow>
                     if response_ok status
                     then form_reset (p_form p) (showNotification st success_text ''success'')
                     else showNotification st rejected_text ''error''
                 | Rejected \<Rightarrow> showNotification st network_text ''error'')
      in st1\<lparr>btn_disabled := False, btn_html := p_originalButtonContent p\<rparr>)"

definition handleContactSubmit :: "page \<Rightarrow> form \<Rightarrow> fetch_outcome \<Rightarrow> page" where
  "handleContactSubmit st fm out =
     (case submit_begin st fm of
        (st1, None) \<Rightarrow> st1
      | (st1, Some p) \<Rightarrow> submit_settle out p st1)"

section \<open>Observations and the words of the specification\<close>

text \<open>
  The pattern of the specification, in its words: one or more non-whitespace, non-@
  characters, an @, one or more such characters, a literal dot, one or more such
  characters. \<open>plain\<close> is "non-whitespace and not @".
\<close>

definition plain :: "code_unit \<Rightarrow> bool" where
  "plain c \<longleftrightarrow> \<not> is_js_space c \<and> c \<noteq> AT"

definition email_shape :: "jsstring \<Rightarrow> bool" where
  "email_shape v \<longleftrightarrow>
     (\<exists>a b c. v = a @ [AT] @ b @ [DOT] @ c \<and> a \<noteq> [] \<and> b \<noteq> [] \<and> c \<noteq> [] \<and>
        list_all plain a \<and> list_all plain b \<and> list_all plain c)"

text \<open>The two reasons of the specification are the two messages of the script.\<close>

definition MissingValue :: string where
  "MissingValue = ''This field is required.''"

definition InvalidFormat :: string where
  "InvalidFormat = ''Please enter a valid email address.''"

text \<open>
  The inline message of a field, as the script finds it: the \<^verbatim>\<open>innerHTML\<close> of the first
  \<^verbatim>\<open>.error-message\<close> element of the field's parent. \<open>count_errors\<close> counts such
  elements in a container.
\<close>

definition shown_message :: "page \<Rightarrow> nat \<Rightarrow> string option" where
  "shown_message st i = map_option e_html (querySelector (kids st (f_parent (controls st i))))"

definition count_errors :: "elem list \<Rightarrow> nat" where
  "count_errors es = length (filter is_error_message es)"

text \<open>
  The container that \<open>showFieldError\<close> leaves: the message is written into the first
  \<^verbatim>\<open>.error-message\<close> element, created and appended under the name \<open>fresh\<close> when
  there was none.
\<close>

definition shown_list :: "nat \<Rightarrow> string \<Rightarrow> elem list \<Rightarrow> elem list" where
  "shown_list fresh message es =
     update_first is_error_message (\<lambda>e. e\<lparr>e_html := error_icon @ message\<rparr>)
       (case querySelector es of
          None \<Rightarrow> es @ [\<lparr>e_id = fresh, e_classes = [''error-message''], e_css = error_css, e_html = []\<rparr>]
        | Some e \<Rightarrow> es)"

text \<open>
  The control as \<open>validateField\<close> leaves it, and the container as \<open>validateField\<close> leaves
  it (\<open>removeFieldError\<close>, then \<open>showFieldError\<close> on a failure).
\<close>

definition validated :: "field \<Rightarrow> field" where
  "validated f =
     (if fst (check_field f)
      then f\<lparr>f_classes := classList_remove ''error'' (f_classes f),
             f_borderColor := [], f_boxShadow := []\<rparr>
      else f\<lparr>f_classes := classList_add ''error'' (classList_remove ''error'' (f_classes f)),
             f_borderColor := ''#ef4444'', f_boxShadow := ''0 0 0 3px rgba(239, 68, 68, 0.1)''\<rparr>)"


text \<open>The container of a field: the identity of its \<^verbatim>\<open>parentNode\<close>.\<close>

definition parent_of :: "page \<Rightarrow> nat \<Rightarrow> nat" where
  "parent_of st i = f_parent (controls st i)"

text \<open>The notification element that \<open>showNotification\<close> builds for a message and a severity.\<close>

definition toast_of :: "string \<Rightarrow> string \<Rightarrow> toast" where
  "toast_of message ty =
     \<lparr>n_html = ''<i class=\"'' @ icons ty @ ''\" aria-hidden=\"true\"></i> '' @ message,
      n_background = colors ty\<rparr>"

text \<open>
  The pages the script can reach: a notification is attached to the body at most once,
  every attached notification and every scheduled callback is about an element that was
  created, every pending timeout is the one its notification's click listener holds, and
  only created notifications have a listener.
\<close>

fun callback_ok :: "page \<Rightarrow> callback \<Rightarrow> bool" where
  "callback_ok st (Timeout h n) = (n < next_id st \<and> listeners st n = Some h)"
| "callback_ok st (Tween n) = (n < next_id st)"

definition wf_page :: "page \<Rightarrow> bool" where
  "wf_page st \<longleftrightarrow>
     distinct (body st) \<and> (\<forall>n\<in>set (body st). n < next_id st)
     \<and> (\<forall>x\<in>set (queue st). callback_ok st (snd x))
     \<and> (\<forall>n h. listeners st n = Some h \<longrightarrow> n < next_id st)"




definition no_timer :: "nat \<Rightarrow> page \<Rightarrow> bool" where
  "no_timer n s \<longleftrightarrow> (\<forall>x\<in>set (queue s). \<forall>h. snd x \<noteq> Timeout h n)"

section \<open>Concrete pages for evaluation\<close>

text \<open>
  A page with nothing on it but controls that are empty, optional text inputs, each in a
  container of its own, with animation frames 16 ms apart, and \<open>with_field\<close> to set one
  control up.
\<close>

definition blank_field :: field where
  "blank_field =
     \<lparr>f_value = [], f_default = [], f_required = False, f_type = ''text'', f_classes = [],
      f_borderColor = [], f_boxShadow = [], f_parent = 0\<rparr>"

definition blank_page :: page where
  "blank_page =
     \<lparr>controls = (\<lambda>i. blank_field\<lparr>f_parent := i\<rparr>), kids = (\<lambda>p. []), next_id = 0,
      btn_disabled = False, btn_html = ''Send Message'', body = [],
      toasts = (\<lambda>n. \<lparr>n_html = [], n_background = []\<rparr>), listeners = (\<lambda>n. None),
      next_timer = 0, queue = [], now = 0, fetch_log = [], uncaught = [],
      frame = (\<lambda>x. ((x + 15) div 16) * 16)\<rparr>"

definition with_field :: "nat \<Rightarrow> bool \<Rightarrow> string \<Rightarrow> jsstring \<Rightarrow> page \<Rightarrow> page" where
  "with_field i req ty v st =
     set_field i (\<lambda>f. f\<lparr>f_required := req, f_type := ty, f_value := v\<rparr>) st"

text \<open>
  A form of two required fields, an empty text input and an email input holding "x", and
  the page after the first of them failed validation and was then filled in.
\<close>

definition two_fields :: form where
  "two_fields = \<lparr>fm_fields = [0, 1], fm_action = ''https://formspree.io/f/x''\<rparr>"

definition both_invalid :: page where
  "both_invalid = with_field 1 True ''email'' (js ''x'') (with_field 0 True ''text'' [] blank_page)"






text \<open>The same form filled in with a name and a well-formed address.\<close>

definition filled :: page where
  "filled = with_field 1 True ''email'' (js ''a@b.com'') (with_field 0 True ''text'' (js ''Umer'') blank_page)"

text \<open>A success notification and an error notification, each created on the blank page at time 0.\<close>

definition shown :: page where
  "shown = showNotification blank_page ''Saved'' ''success''"


section \<open>The regular expression matches the pattern of the specification\<close>

lemma regex_test_Nil: "regex_test [] s \<longleftrightarrow> s = []"
  by (cases s) auto

lemma regex_test_One:
  "regex_test (One a # ps) s \<longleftrightarrow> (\<exists>c r. s = c # r \<and> atom_ok a c \<and> regex_test ps r)"
  by (cases s) auto

lemma regex_test_Plus:
  "regex_test (Plus a # ps) s \<longleftrightarrow>
     (\<exists>xs r. s = xs @ r \<and> xs \<noteq> [] \<and> list_all (atom_ok a) xs \<and> regex_test ps r)"
proof (induction s)
  case Nil
  show ?case by simp
next
  case (Cons c cs)
  show ?case
  proof
    assume "regex_test (Plus a # ps) (c # cs)"
    then have ok: "atom_ok a c" and d: "regex_test (Plus a # ps) cs \<or> regex_test ps cs"
      by auto
    from d show "\<exists>xs r. c # cs = xs @ r \<and> xs \<noteq> [] \<and> list_all (atom_ok a) xs \<and> regex_test ps r"
    proof
      assume "regex_test (Plus a # ps) cs"
      with Cons.IH obtain xs r where "cs = xs @ r" "list_all (atom_ok a) xs" "regex_test ps r"
        by auto
      with ok have "c # cs = (c # xs) @ r \<and> c # xs \<noteq> [] \<and> list_all (atom_ok a) (c # xs) \<and> regex_test ps r"
        by simp
      then show ?thesis by blast
    next
      assume "regex_test ps cs"
      with ok have "c # cs = [c] @ cs \<and> [c] \<noteq> [] \<and> list_all (atom_ok a) [c] \<and> regex_test ps cs"
        by simp
      then show ?thesis by blast
    qed
  next
    assume "\<exists>xs r. c # cs = xs @ r \<and> xs \<noteq> [] \<and> list_all (atom_ok a) xs \<and> regex_test ps r"
    then obtain xs r where s: "c # cs = xs @ r" and ne: "xs \<noteq> []"
      and all: "list_all (atom_ok a) xs" and rest: "regex_test ps r"
      by blast
    from ne obtain y ys where xs: "xs = y # ys" by (cases xs) auto
    with s have c: "y = c" and cs: "cs = ys @ r" by auto
    from all xs c have ok: "atom_ok a c" and all': "list_all (atom_ok a) ys" by auto
    show "regex_test (Plus a # ps) (c # cs)"
    proof (cases "ys = []")
      case True
      with cs rest ok show ?thesis by simp
    next
      case False
      with cs all' rest Cons.IH have "regex_test (Plus a # ps) cs" by blast
      with ok show ?thesis by simp
    qed
  qed
qed

lemma atom_ok_class: "atom_ok (NotIn [Esc_s, Lit AT]) = plain"
  by (rule ext) (simp add: plain_def)

lemma emailRegex_shape: "regex_test emailRegex v \<longleftrightarrow> email_shape v"
  unfolding emailRegex_def email_shape_def
  by (simp add: regex_test_Plus regex_test_One regex_test_Nil atom_ok_class) blast

section \<open>The effect of the validation procedures\<close>

lemma find_remove_first: "find P xs = None \<Longrightarrow> remove_first P xs = xs"
  by (induction xs) auto


lemma find_None_count: "find P xs = None \<longleftrightarrow> length (filter P xs) = 0"
  by (induction xs) auto

lemma find_update_first:
  "\<forall>x. P x \<longrightarrow> P (g x) \<Longrightarrow> find P (update_first P g xs) = map_option g (find P xs)"
  by (induction xs) auto


lemma find_append_new:
  "find P xs = None \<Longrightarrow> P x \<Longrightarrow> find P (xs @ [x]) = Some x"
  by (induction xs) (auto split: if_splits)

lemma is_error_html [simp]: "is_error_message (e\<lparr>e_html := h\<rparr>) = is_error_message e"
  by (simp add: is_error_message_def)

lemma kids_removeFieldError:
  "kids (removeFieldError st i) =
     (kids st)(f_parent (controls st i) := remove_first is_error_message (kids st (f_parent (controls st i))))"
  by (auto simp: removeFieldError_def set_field_def set_kids_def Let_def querySelector_def
           find_remove_first split: option.splits)

lemma controls_removeFieldError:
  "controls (removeFieldError st i) =
     (controls st)(i := (controls st i)\<lparr>f_borderColor := [], f_boxShadow := []\<rparr>)"
  by (auto simp: removeFieldError_def set_field_def set_kids_def Let_def split: option.splits)

lemma kids_showFieldError:
  "kids (showFieldError st i m) =
     (kids st)(f_parent (controls st i) := shown_list (next_id st) m (kids st (f_parent (controls st i))))"
  by (auto simp: showFieldError_def set_field_def set_kids_def Let_def shown_list_def
           split: option.splits)

lemma controls_showFieldError:
  "controls (showFieldError st i m) =
     (controls st)(i := (controls st i)\<lparr>f_classes := classList_add ''error'' (f_classes (controls st i)),
        f_borderColor := ''#ef4444'', f_boxShadow := ''0 0 0 3px rgba(239, 68, 68, 0.1)''\<rparr>)"
  by (auto simp: showFieldError_def set_field_def set_kids_def Let_def split: option.splits)

lemma next_id_showFieldError:
  "next_id (showFieldError st i m) =
     (if querySelector (kids st (f_parent (controls st i))) = None then Suc (next_id st) else next_id st)"
  by (auto simp: showFieldError_def set_field_def set_kids_def Let_def split: option.splits)

lemma next_id_removeFieldError: "next_id (removeFieldError st i) = next_id st"
  by (auto simp: removeFieldError_def set_field_def set_kids_def Let_def split: option.splits)

lemma validateField_fst: "fst (validateField st i) = fst (check_field (controls st i))"
  by (simp add: validateField_def Let_def split: prod.splits)

lemma kids_validateField:
  "kids (snd (validateField st i)) =
     (kids st)(f_parent (controls st i) :=
        (if fst (check_field (controls st i))
         then remove_first is_error_message (kids st (f_parent (controls st i)))
         else shown_list (next_id st) (snd (check_field (controls st i)))
                (remove_first is_error_message (kids st (f_parent (controls st i))))))"
  by (auto simp: validateField_def Let_def kids_showFieldError kids_removeFieldError
        controls_removeFieldError next_id_removeFieldError set_field_def split: prod.splits)

lemma controls_validateField:
  "controls (snd (validateField st i)) =
     (controls st)(i :=
        (if fst (check_field (controls st i))
         then (controls st i)\<lparr>f_classes := classList_remove ''error'' (f_classes (controls st i)),
                f_borderColor := [], f_boxShadow := []\<rparr>
         else (controls st i)\<lparr>f_classes := classList_add ''error'' (classList_remove ''error'' (f_classes (controls st i))),
                f_borderColor := ''#ef4444'', f_boxShadow := ''0 0 0 3px rgba(239, 68, 68, 0.1)''\<rparr>))"
  by (auto simp: validateField_def Let_def controls_showFieldError controls_removeFieldError
        set_field_def split: prod.splits)

lemma query_shown_list:
  "map_option e_html (querySelector (shown_list n m es)) = Some (error_icon @ m)"
  by (cases "find is_error_message es")
     (simp_all add: shown_list_def querySelector_def find_update_first find_append_new
        is_error_message_def)

lemma parent_validateField:
  "f_parent (controls (snd (validateField st i)) j) = f_parent (controls st j)"
  by (simp add: controls_validateField)

lemma shown_validateField_fail:
  "\<not> fst (check_field (controls st i)) \<Longrightarrow>
   shown_message (snd (validateField st i)) i = Some (error_icon @ snd (check_field (controls st i)))"
  by (simp add: shown_message_def parent_validateField kids_validateField query_shown_list)

lemma check_field_required:
  "f_required f \<Longrightarrow> trim (f_value f) = [] \<Longrightarrow> check_field f = (False, MissingValue)"
  by (simp add: check_field_def MissingValue_def)

lemma controls_validateField': "controls (snd (validateField st i)) = (controls st)(i := validated (controls st i))"
  by (simp add: controls_validateField validated_def)


lemma check_field_cong:
  "f_value g = f_value f \<Longrightarrow> f_required g = f_required f \<Longrightarrow> f_type g = f_type f \<Longrightarrow>
   check_field g = check_field f"
  by (simp add: check_field_def)

lemma check_validated [simp]: "check_field (validated f) = check_field f"
  by (rule check_field_cong) (simp_all add: validated_def)

lemma parent_validated [simp]: "f_parent (validated f) = f_parent f"
  by (simp add: validated_def)

lemma required_validated [simp]: "f_required (validated f) = f_required f"
  by (simp add: validated_def)

lemma value_validated [simp]: "f_value (validated f) = f_value f"
  by (simp add: validated_def)

lemma validated_idem [simp]: "validated (validated f) = validated f"
proof (cases "fst (check_field f)")
  case True
  have "validated (validated f) =
      (validated f)\<lparr>f_classes := classList_remove ''error'' (f_classes (validated f)),
         f_borderColor := [], f_boxShadow := []\<rparr>"
    using True by (subst validated_def) simp
  also have "\<dots> = validated f"
    using True by (simp add: validated_def classList_remove_def)
  finally show ?thesis .
next
  case False
  have "validated (validated f) =
      (validated f)\<lparr>f_classes := classList_add ''error'' (classList_remove ''error'' (f_classes (validated f))),
         f_borderColor := ''#ef4444'', f_boxShadow := ''0 0 0 3px rgba(239, 68, 68, 0.1)''\<rparr>"
    using False by (subst validated_def) simp
  also have "\<dots> = validated f"
    using False by (simp add: validated_def classList_remove_def classList_add_def)
  finally show ?thesis .
qed

lemma error_class_validated:
  "''error'' \<in> set (f_classes (validated f)) \<longleftrightarrow> \<not> fst (check_field f)"
  by (simp add: validated_def classList_add_def classList_remove_def)

lemma style_validated:
  "f_borderColor (validated f) = (if fst (check_field f) then [] else ''#ef4444'')
   \<and> f_boxShadow (validated f) = (if fst (check_field f) then [] else ''0 0 0 3px rgba(239, 68, 68, 0.1)'')"
  by (simp add: validated_def)

lemma parent_of_validateField [simp]: "parent_of (snd (validateField st i)) j = parent_of st j"
  by (simp add: parent_of_def controls_validateField')

lemma check_after_validateField [simp]:
  "check_field (controls (snd (validateField st i)) j) = check_field (controls st j)"
  by (simp add: controls_validateField')

lemma required_after_validateField [simp]:
  "f_required (controls (snd (validateField st i)) j) = f_required (controls st j)"
  by (simp add: controls_validateField')



lemma query_count0: "querySelector es = None \<longleftrightarrow> count_errors es = 0"
  by (simp add: querySelector_def count_errors_def find_None_count)



lemma validate_each_Cons:
  "validate_each (i # rest) ok st =
     validate_each rest (ok \<and> fst (check_field (controls st i))) (snd (validateField st i))"
proof -
  have "(if \<not> fst (validateField st i) then False else ok) = (ok \<and> fst (check_field (controls st i)))"
    by (simp add: validateField_fst)
  then show ?thesis
    by (simp add: case_prod_unfold)
qed

lemma validate_each_fst:
  "fst (validate_each is ok st) \<longleftrightarrow> ok \<and> (\<forall>i\<in>set is. fst (check_field (controls st i)))"
proof (induction "is" arbitrary: ok st)
  case Nil
  show ?case by simp
next
  case (Cons i rest)
  show ?case
    unfolding validate_each_Cons Cons.IH by auto
qed

lemma validate_each_controls:
  "controls (snd (validate_each is ok st)) j =
     (if j \<in> set is then validated (controls st j) else controls st j)"
proof (induction "is" arbitrary: ok st)
  case Nil
  show ?case by simp
next
  case (Cons i rest)
  show ?case
    unfolding validate_each_Cons Cons.IH by (simp add: controls_validateField')
qed

lemma validate_each_parent [simp]: "parent_of (snd (validate_each is ok st)) j = parent_of st j"
  by (simp add: parent_of_def validate_each_controls)

section \<open>The claims\<close>

text \<open>
  C3. For every field marked required, if the field's value trimmed of whitespace is empty,
  then validation returns invalid with the MissingValue reason, the message
  "This field is required.": \<open>validateField\<close> returns false, its two locals are false and
  that message, and the message is what the field's container shows afterwards.
\<close>

theorem validate_required_empty:
  assumes "f_required (controls st i)" and "trim (f_value (controls st i)) = []"
  shows "fst (validateField st i) = False
    \<and> check_field (controls st i) = (False, MissingValue)
    \<and> MissingValue = ''This field is required.''
    \<and> shown_message (snd (validateField st i)) i = Some (error_icon @ MissingValue)"
proof -
  have c: "check_field (controls st i) = (False, MissingValue)"
    using assms by (rule check_field_required)
  then have "\<not> fst (check_field (controls st i))" by simp
  from shown_validateField_fail [OF this] c show ?thesis
    by (simp add: validateField_fst MissingValue_def)
qed

theorem validate_required_empty_witness:
  "f_required (controls (with_field 0 True ''text'' (js ''  '') blank_page) 0)
   \<and> trim (f_value (controls (with_field 0 True ''text'' (js ''  '') blank_page) 0)) = []
   \<and> fst (validateField (with_field 0 True ''text'' (js ''  '') blank_page) 0) = False
   \<and> shown_message (snd (validateField (with_field 0 True ''text'' (js ''  '') blank_page) 0)) 0
       = Some (error_icon @ ''This field is required.'')"
proof -
  have r: "f_required (controls (with_field 0 True ''text'' (js ''  '') blank_page) 0)"
    by (simp add: with_field_def set_field_def blank_page_def)
  have t: "trim (f_value (controls (with_field 0 True ''text'' (js ''  '') blank_page) 0)) = []"
    by (simp add: with_field_def set_field_def blank_page_def trim_def js_def is_js_space_def)
  from validate_required_empty [OF r t] r t show ?thesis
    by (simp add: MissingValue_def)
qed

subsection \<open>The email check\<close>

lemma check_field_email:
  "f_type f = ''email'' \<Longrightarrow> trim (f_value f) \<noteq> [] \<Longrightarrow>
   check_field f = (if email_shape (trim (f_value f)) then (True, []) else (False, InvalidFormat))"
  by (simp add: check_field_def emailRegex_shape InvalidFormat_def)

lemma check_field_no_email:
  "trim (f_value f) = [] \<or> f_type f \<noteq> ''email'' \<Longrightarrow>
   check_field f = (if f_required f \<and> trim (f_value f) = [] then (False, MissingValue) else (True, []))"
  by (auto simp: check_field_def MissingValue_def)

lemma email_shape_has_at: "email_shape v \<Longrightarrow> AT \<in> set v"
  by (auto simp: email_shape_def)

lemma email_shape_dot_after_at: "email_shape v \<Longrightarrow> \<exists>p s. v = p @ AT # s \<and> DOT \<in> set s"
proof -
  assume "email_shape v"
  then obtain a b c where "v = a @ [AT] @ b @ [DOT] @ c"
    by (auto simp: email_shape_def)
  then have "v = a @ AT # (b @ [DOT] @ c) \<and> DOT \<in> set (b @ [DOT] @ c)" by simp
  then show ?thesis by blast
qed

lemma trim_example_valid: "trim (js ''a@b.com'') = js ''a@b.com''"
  by (simp add: trim_def js_def is_js_space_def)

lemma trim_example_invalid: "trim (js ''not-an-email'') = js ''not-an-email''"
  by (simp add: trim_def js_def is_js_space_def)

lemma regex_example_valid: "regex_test emailRegex (js ''a@b.com'')"
  by (simp add: js_def emailRegex_def AT_def DOT_def is_js_space_def)

lemma regex_example_invalid: "\<not> regex_test emailRegex (js ''not-an-email'')"
  by (simp add: js_def emailRegex_def AT_def DOT_def is_js_space_def)

text \<open>
  C1, as amended. \<open>validateField\<close> trims the value first, and both checks read the trimmed
  value. For every field whose kind is email and whose value, trimmed of leading and
  trailing whitespace, is non-empty, validation passes exactly when the trimmed value has
  the shape of the specification (one or more non-whitespace, non-@ characters, an @, one
  or more such characters, a dot, one or more such characters), and fails with
  InvalidFormat, shown in the field's container, otherwise; in particular it fails when
  the trimmed value has no @, or no dot after an @. "not-an-email" is invalid and
  "a@b.com" is valid. When the trimmed value is empty or the kind is not email, the email
  check has no part in the result: only the required check decides.
\<close>

theorem email_check_on_trimmed_value:
  "(f_type (controls st i) = ''email'' \<and> trim (f_value (controls st i)) \<noteq> [] \<longrightarrow>
      (fst (validateField st i) \<longleftrightarrow> email_shape (trim (f_value (controls st i))))
      \<and> (\<not> email_shape (trim (f_value (controls st i))) \<longrightarrow>
            check_field (controls st i) = (False, InvalidFormat)
            \<and> shown_message (snd (validateField st i)) i = Some (error_icon @ InvalidFormat))
      \<and> (AT \<notin> set (trim (f_value (controls st i))) \<longrightarrow> \<not> fst (validateField st i))
      \<and> ((\<forall>p s. trim (f_value (controls st i)) = p @ AT # s \<longrightarrow> DOT \<notin> set s) \<longrightarrow>
            \<not> fst (validateField st i)))
   \<and> (f_type (controls st i) = ''email'' \<and> f_value (controls st i) = js ''not-an-email'' \<longrightarrow>
        check_field (controls st i) = (False, InvalidFormat))
   \<and> (f_type (controls st i) = ''email'' \<and> f_value (controls st i) = js ''a@b.com'' \<longrightarrow>
        check_field (controls st i) = (True, []))
   \<and> (trim (f_value (controls st i)) = [] \<or> f_type (controls st i) \<noteq> ''email'' \<longrightarrow>
        check_field (controls st i) =
          (if f_required (controls st i) \<and> trim (f_value (controls st i)) = []
           then (False, MissingValue) else (True, [])))
   \<and> InvalidFormat = ''Please enter a valid email address.''"
proof -
  let ?f = "controls st i"
  let ?v = "trim (f_value ?f)"
  have main: "(fst (validateField st i) \<longleftrightarrow> email_shape ?v)
      \<and> (\<not> email_shape ?v \<longrightarrow>
            check_field ?f = (False, InvalidFormat)
            \<and> shown_message (snd (validateField st i)) i = Some (error_icon @ InvalidFormat))
      \<and> (AT \<notin> set ?v \<longrightarrow> \<not> fst (validateField st i))
      \<and> ((\<forall>p s. ?v = p @ AT # s \<longrightarrow> DOT \<notin> set s) \<longrightarrow> \<not> fst (validateField st i))"
    if e: "f_type ?f = ''email''" and n: "?v \<noteq> []"
  proof -
    note c = check_field_email [OF e n]
    have 1: "fst (validateField st i) \<longleftrightarrow> email_shape ?v"
      by (simp add: validateField_fst c)
    have 2: "check_field ?f = (False, InvalidFormat)
        \<and> shown_message (snd (validateField st i)) i = Some (error_icon @ InvalidFormat)"
      if "\<not> email_shape ?v"
    proof -
      from that c have cf: "check_field ?f = (False, InvalidFormat)" by simp
      then have "\<not> fst (check_field ?f)" by simp
      from shown_validateField_fail [OF this] cf show ?thesis by simp
    qed
    have 3: "\<not> fst (validateField st i)" if "AT \<notin> set ?v"
      using that 1 email_shape_has_at by blast
    have 4: "\<not> fst (validateField st i)" if "\<forall>p s. ?v = p @ AT # s \<longrightarrow> DOT \<notin> set s"
      using that 1 email_shape_dot_after_at by blast
    from 1 2 3 4 show ?thesis by blast
  qed
  have bad: "check_field ?f = (False, InvalidFormat)"
    if e: "f_type ?f = ''email''" and v: "f_value ?f = js ''not-an-email''"
  proof -
    from v have t: "?v = js ''not-an-email''" by (simp add: trim_example_invalid)
    have "js ''not-an-email'' \<noteq> []" by (simp add: js_def)
    with t have n: "?v \<noteq> []" by simp
    from regex_example_invalid t have "\<not> email_shape ?v" by (simp add: emailRegex_shape)
    with check_field_email [OF e n] show ?thesis by simp
  qed
  have good: "check_field ?f = (True, [])"
    if e: "f_type ?f = ''email''" and v: "f_value ?f = js ''a@b.com''"
  proof -
    from v have t: "?v = js ''a@b.com''" by (simp add: trim_example_valid)
    have "js ''a@b.com'' \<noteq> []" by (simp add: js_def)
    with t have n: "?v \<noteq> []" by simp
    from regex_example_valid t have "email_shape ?v" by (simp add: emailRegex_shape)
    with check_field_email [OF e n] show ?thesis by simp
  qed
  have off: "check_field ?f = (if f_required ?f \<and> ?v = [] then (False, MissingValue) else (True, []))"
    if "?v = [] \<or> f_type ?f \<noteq> ''email''"
    using that by (rule check_field_no_email)
  have msg: "InvalidFormat = ''Please enter a valid email address.''"
    by (simp add: InvalidFormat_def)
  from main bad good off msg show ?thesis
    by blast
qed

theorem email_check_on_trimmed_value_witness:
  "f_type (controls (with_field 0 True ''email'' (js '' a@b.com '') blank_page) 0) = ''email''
   \<and> trim (f_value (controls (with_field 0 True ''email'' (js '' a@b.com '') blank_page) 0)) = js ''a@b.com''
   \<and> js ''a@b.com'' \<noteq> []
   \<and> fst (validateField (with_field 0 True ''email'' (js '' a@b.com '') blank_page) 0)
   \<and> email_shape (js ''a@b.com'')"
proof -
  let ?st = "with_field 0 True ''email'' (js '' a@b.com '') blank_page"
  have e: "f_type (controls ?st 0) = ''email''"
    by (simp add: with_field_def set_field_def blank_page_def)
  have t: "trim (f_value (controls ?st 0)) = js ''a@b.com''"
    by (simp add: with_field_def set_field_def blank_page_def trim_def js_def is_js_space_def)
  have n: "js ''a@b.com'' \<noteq> []"
    by (simp add: js_def)
  have v: "fst (validateField ?st 0)"
    using regex_example_valid e t n by (simp add: validateField_fst check_field_def)
  from email_check_on_trimmed_value [of ?st 0] e t n v show ?thesis
    by simp
qed

text \<open>
  C1 as stated speaks of the value of the field. The value made of one no-break space
  (U+00A0) is non-empty and has no @, and the optional email field that holds it is valid:
  the trimmed value is empty, so the email check is not applied.
\<close>

theorem email_check_raw_value_counterexample:
  "f_type (controls (with_field 0 False ''email'' [0xA0] blank_page) 0) = ''email''
   \<and> f_value (controls (with_field 0 False ''email'' [0xA0] blank_page) 0) = [0xA0]
   \<and> AT \<notin> set (f_value (controls (with_field 0 False ''email'' [0xA0] blank_page) 0))
   \<and> fst (validateField (with_field 0 False ''email'' [0xA0] blank_page) 0)
   \<and> check_field (controls (with_field 0 False ''email'' [0xA0] blank_page) 0) = (True, [])"
  by (simp add: with_field_def set_field_def blank_page_def blank_field_def validateField_fst
        check_field_def trim_def is_js_space_def AT_def)

subsection \<open>The whole form\<close>

lemma validateForm_fst:
  "fst (validateForm st fm) \<longleftrightarrow> (\<forall>i\<in>set (requiredFields st fm). fst (validateField st i))"
  by (simp add: validateForm_def validate_each_fst validateField_fst)

lemma validateForm_controls:
  "controls (snd (validateForm st fm)) j =
     (if j \<in> set (requiredFields st fm) then validated (controls st j) else controls st j)"
  by (simp add: validateForm_def validate_each_controls)

lemma check_both_invalid:
  "check_field (controls both_invalid 0) = (False, MissingValue)
   \<and> check_field (controls both_invalid 1) = (False, InvalidFormat)"
  by (simp add: both_invalid_def with_field_def set_field_def blank_page_def blank_field_def
        check_field_def trim_def js_def is_js_space_def emailRegex_def AT_def
        MissingValue_def InvalidFormat_def)

lemma required_both_invalid: "requiredFields both_invalid two_fields = [0, 1]"
  by (simp add: requiredFields_def two_fields_def both_invalid_def with_field_def set_field_def
        blank_page_def)

text \<open>
  C2. Whole-form validation returns true iff every field carrying the required constraint
  passes its per-field validation, and the per-field validation runs on every required
  field, also after a failure: after the pass every required field carries the error
  class and the error border exactly when its own validation fails.
\<close>

theorem validateForm_all_required:
  "(fst (validateForm st fm) \<longleftrightarrow> (\<forall>i\<in>set (requiredFields st fm). fst (validateField st i)))
   \<and> (\<forall>i\<in>set (requiredFields st fm).
         (''error'' \<in> set (f_classes (controls (snd (validateForm st fm)) i))
            \<longleftrightarrow> \<not> fst (validateField st i))
         \<and> f_borderColor (controls (snd (validateForm st fm)) i)
             = (if fst (validateField st i) then [] else ''#ef4444''))
   \<and> set (requiredFields st fm) = {i \<in> set (fm_fields fm). f_required (controls st i)}"
proof -
  have marks: "(''error'' \<in> set (f_classes (controls (snd (validateForm st fm)) i))
            \<longleftrightarrow> \<not> fst (validateField st i))
         \<and> f_borderColor (controls (snd (validateForm st fm)) i)
             = (if fst (validateField st i) then [] else ''#ef4444'')"
    if "i \<in> set (requiredFields st fm)" for i
    using that
    by (simp add: validateForm_controls error_class_validated style_validated validateField_fst)
  have req: "set (requiredFields st fm) = {i \<in> set (fm_fields fm). f_required (controls st i)}"
    by (simp add: requiredFields_def)
  from validateForm_fst [of st fm] marks req show ?thesis
    by blast
qed

theorem validateForm_all_required_witness:
  "requiredFields both_invalid two_fields = [0, 1]
   \<and> \<not> fst (validateField both_invalid 0) \<and> \<not> fst (validateField both_invalid 1)
   \<and> \<not> fst (validateForm both_invalid two_fields)
   \<and> ''error'' \<in> set (f_classes (controls (snd (validateForm both_invalid two_fields)) 0))
   \<and> ''error'' \<in> set (f_classes (controls (snd (validateForm both_invalid two_fields)) 1))"
  using validateForm_all_required [of both_invalid two_fields] check_both_invalid
  by (simp add: required_both_invalid validateField_fst)

subsection \<open>The inline message of a field\<close>










subsection \<open>One error element per container\<close>





lemma next_id_validateField:
  "next_id (snd (validateField st i)) =
     (if fst (check_field (controls st i)) then next_id st
      else if count_errors (remove_first is_error_message (kids st (parent_of st i))) = 0
           then Suc (next_id st) else next_id st)"
  by (simp add: validateField_def Let_def case_prod_unfold next_id_showFieldError
        next_id_removeFieldError kids_removeFieldError controls_removeFieldError set_field_def
        query_count0 parent_of_def)






subsection \<open>The contact submission\<close>

lemma validateField_touches:
  "snd (validateField st i) =
     st\<lparr>controls := controls (snd (validateField st i)), kids := kids (snd (validateField st i)),
        next_id := next_id (snd (validateField st i))\<rparr>"
  by (simp add: validateField_def removeFieldError_def showFieldError_def set_field_def
        set_kids_def Let_def split: prod.splits option.splits)

lemma validate_each_touches:
  "\<exists>c k n. snd (validate_each is ok st) = st\<lparr>controls := c, kids := k, next_id := n\<rparr>"
proof (induction "is" arbitrary: ok st)
  case Nil
  have "st = st\<lparr>controls := controls st, kids := kids st, next_id := next_id st\<rparr>" by simp
  then show ?case by (metis validate_each.simps(1) snd_conv)
next
  case (Cons i rest)
  from Cons.IH [of "ok \<and> fst (check_field (controls st i))" "snd (validateField st i)"]
  obtain c k n where "snd (validate_each (i # rest) ok st) =
      (snd (validateField st i))\<lparr>controls := c, kids := k, next_id := n\<rparr>"
    unfolding validate_each_Cons by blast
  then have "snd (validate_each (i # rest) ok st) = st\<lparr>controls := c, kids := k, next_id := n\<rparr>"
    by (subst (asm) validateField_touches) simp
  then show ?case by blast
qed

lemma validateForm_touches:
  "\<exists>c k n. snd (validateForm st fm) = st\<lparr>controls := c, kids := k, next_id := n\<rparr>"
  unfolding validateForm_def by (rule validate_each_touches)

lemma validateForm_frame:
  "btn_disabled (snd (validateForm st fm)) = btn_disabled st
   \<and> btn_html (snd (validateForm st fm)) = btn_html st
   \<and> body (snd (validateForm st fm)) = body st
   \<and> toasts (snd (validateForm st fm)) = toasts st
   \<and> listeners (snd (validateForm st fm)) = listeners st
   \<and> next_timer (snd (validateForm st fm)) = next_timer st
   \<and> queue (snd (validateForm st fm)) = queue st
   \<and> now (snd (validateForm st fm)) = now st
   \<and> fetch_log (snd (validateForm st fm)) = fetch_log st
   \<and> uncaught (snd (validateForm st fm)) = uncaught st"
proof -
  obtain c k n where "snd (validateForm st fm) = st\<lparr>controls := c, kids := k, next_id := n\<rparr>"
    using validateForm_touches by blast
  then show ?thesis by simp
qed

lemma submit_begin_valid:
  "fst (validateForm st fm) \<Longrightarrow>
   submit_begin st fm =
     ((snd (validateForm st fm))\<lparr>btn_disabled := True, btn_html := sending_label,
         fetch_log := fetch_log st @ [\<lparr>r_url = fm_action fm, r_method = ''POST''\<rparr>]\<rparr>,
      Some \<lparr>p_form = fm, p_originalButtonContent = btn_html st\<rparr>)"
  by (simp add: submit_begin_def Let_def case_prod_unfold validateForm_frame)

lemma submit_begin_invalid:
  "\<not> fst (validateForm st fm) \<Longrightarrow> submit_begin st fm = (snd (validateForm st fm), None)"
  by (simp add: submit_begin_def Let_def case_prod_unfold)

lemma showNotification_eq:
  "showNotification st message ty =
     st\<lparr>next_id := Suc (next_id st),
        toasts := (toasts st)(next_id st := toast_of message ty),
        body := body st @ [next_id st],
        next_timer := Suc (next_timer st),
        queue := queue st @ [(now st + dismiss_delay ty, Timeout (next_timer st) (next_id st))],
        listeners := (listeners st)(next_id st \<mapsto> next_timer st)\<rparr>"
  by (simp add: showNotification_def Let_def toast_of_def)

lemma settle_success:
  "response_ok status \<Longrightarrow>
   submit_settle (Responded status) p st =
     (form_reset (p_form p) (showNotification st success_text ''success''))
       \<lparr>btn_disabled := False, btn_html := p_originalButtonContent p\<rparr>"
  by (simp add: submit_settle_def)

lemma settle_rejected:
  "\<not> response_ok status \<Longrightarrow>
   submit_settle (Responded status) p st =
     (showNotification st rejected_text ''error'')
       \<lparr>btn_disabled := False, btn_html := p_originalButtonContent p\<rparr>"
  by (simp add: submit_settle_def)

lemma settle_network:
  "submit_settle Rejected p st =
     (showNotification st network_text ''error'')
       \<lparr>btn_disabled := False, btn_html := p_originalButtonContent p\<rparr>"
  by (simp add: submit_settle_def)

lemma handle_valid:
  "fst (validateForm st fm) \<Longrightarrow>
   handleContactSubmit st fm out =
     submit_settle out \<lparr>p_form = fm, p_originalButtonContent = btn_html st\<rparr>
       (fst (submit_begin st fm))"
  by (simp add: handleContactSubmit_def submit_begin_valid)

lemma handle_invalid:
  "\<not> fst (validateForm st fm) \<Longrightarrow> handleContactSubmit st fm out = snd (validateForm st fm)"
  by (simp add: handleContactSubmit_def submit_begin_invalid)

lemma check_filled:
  "check_field (controls filled 0) = (True, []) \<and> check_field (controls filled 1) = (True, [])"
  by (simp add: filled_def with_field_def set_field_def blank_page_def blank_field_def
        check_field_def trim_def js_def is_js_space_def emailRegex_def AT_def DOT_def)

lemma required_filled: "requiredFields filled two_fields = [0, 1]"
  by (simp add: requiredFields_def two_fields_def filled_def with_field_def set_field_def
        blank_page_def)

lemma valid_filled: "fst (validateForm filled two_fields)"
  using check_filled by (simp add: validateForm_fst required_filled validateField_fst)

lemma default_validated [simp]: "f_default (validated f) = f_default f"
  by (simp add: validated_def)

lemma controls_form_reset:
  "controls (form_reset fm st) i =
     (if i \<in> set (fm_fields fm) then (controls st i)\<lparr>f_value := f_default (controls st i)\<rparr>
      else controls st i)"
  by (simp add: form_reset_def)

lemma settle_success_effect:
  assumes ok: "response_ok status"
  shows "(\<forall>i\<in>set (fm_fields (p_form p)).
            f_value (controls (submit_settle (Responded status) p st) i) = f_default (controls st i))
    \<and> (\<forall>i. i \<notin> set (fm_fields (p_form p)) \<longrightarrow>
            controls (submit_settle (Responded status) p st) i = controls st i)
    \<and> body (submit_settle (Responded status) p st) = body st @ [next_id st]
    \<and> toasts (submit_settle (Responded status) p st) = (toasts st)(next_id st := toast_of success_text ''success'')
    \<and> queue (submit_settle (Responded status) p st)
        = queue st @ [(now st + 3000, Timeout (next_timer st) (next_id st))]"
  unfolding settle_success [OF ok]
  by (simp add: controls_form_reset form_reset_def showNotification_eq dismiss_delay_def)

lemma settle_failure_effect:
  assumes out: "out = Rejected \<or> (\<exists>status. out = Responded status \<and> \<not> response_ok status)"
  shows "controls (submit_settle out p st) = controls st
    \<and> body (submit_settle out p st) = body st @ [next_id st]
    \<and> toasts (submit_settle out p st) =
        (toasts st)(next_id st := toast_of (if out = Rejected then network_text else rejected_text) ''error'')
    \<and> queue (submit_settle out p st) = queue st @ [(now st + 5000, Timeout (next_timer st) (next_id st))]
    \<and> fetch_log (submit_settle out p st) = fetch_log st"
  using out
  by (auto simp: settle_rejected settle_network showNotification_eq dismiss_delay_def)

lemma settle_button:
  "\<not> btn_disabled (submit_settle out p st) \<and> btn_html (submit_settle out p st) = p_originalButtonContent p"
  by (simp add: submit_settle_def Let_def)

lemma settle_fetch_log: "fetch_log (submit_settle out p st) = fetch_log st"
  by (cases out) (simp_all add: submit_settle_def showNotification_eq form_reset_def)

lemma begin_state:
  assumes v: "fst (validateForm st fm)"
  shows "btn_disabled (fst (submit_begin st fm))
    \<and> btn_html (fst (submit_begin st fm)) = sending_label
    \<and> fetch_log (fst (submit_begin st fm)) = fetch_log st @ [\<lparr>r_url = fm_action fm, r_method = ''POST''\<rparr>]
    \<and> body (fst (submit_begin st fm)) = body st
    \<and> next_id (fst (submit_begin st fm)) = next_id (snd (validateForm st fm))
    \<and> controls (fst (submit_begin st fm)) = controls (snd (validateForm st fm))
    \<and> snd (submit_begin st fm) = Some \<lparr>p_form = fm, p_originalButtonContent = btn_html st\<rparr>"
  by (simp add: submit_begin_valid [OF v] validateForm_frame)

lemma validate_each_next_id:
  "\<forall>i\<in>set is. fst (check_field (controls st i)) \<Longrightarrow>
   next_id (snd (validate_each is ok st)) = next_id st"
proof (induction "is" arbitrary: ok st)
  case Nil
  show ?case by simp
next
  case (Cons i rest)
  from Cons.prems have "\<forall>j\<in>set rest. fst (check_field (controls (snd (validateField st i)) j))"
    by simp
  from Cons.IH [OF this] Cons.prems show ?case
    unfolding validate_each_Cons by (simp add: next_id_validateField)
qed

lemma validateForm_next_id:
  "fst (validateForm st fm) \<Longrightarrow> next_id (snd (validateForm st fm)) = next_id st"
  unfolding validateForm_def
  by (rule validate_each_next_id) (simp add: validate_each_fst)

lemma next_id_filled: "next_id filled = 0 \<and> next_timer filled = 0 \<and> now filled = 0 \<and> queue filled = []"
  by (simp add: filled_def with_field_def set_field_def blank_page_def)

lemma facts_filled:
  "body filled = [] \<and> f_default (controls filled 0) = [] \<and> f_default (controls filled 1) = []
   \<and> btn_html filled = ''Send Message'' \<and> \<not> btn_disabled filled \<and> fetch_log filled = []
   \<and> fm_fields two_fields = [0, 1]"
  by (simp add: filled_def with_field_def set_field_def blank_page_def blank_field_def two_fields_def)

text \<open>
  C4. For every submission whose response status is in the range 200 to 299, the fields of
  the form are reset (each value is its default value again, so empty where the default is
  empty) and exactly one notification is presented, of success severity: whatever the
  page looks like when the request settles, and in particular for a run of the handler
  from validation to settling.
\<close>

theorem success_resets_and_notifies_once:
  "200 \<le> status \<and> status \<le> 299 \<longrightarrow>
     ((\<forall>i\<in>set (fm_fields (p_form p)).
          f_value (controls (submit_settle (Responded status) p st) i) = f_default (controls st i)
          \<and> (f_default (controls st i) = [] \<longrightarrow>
                f_value (controls (submit_settle (Responded status) p st) i) = []))
      \<and> body (submit_settle (Responded status) p st) = body st @ [next_id st]
      \<and> toasts (submit_settle (Responded status) p st)
          = (toasts st)(next_id st := toast_of success_text ''success'')
      \<and> (fst (validateForm st fm) \<longrightarrow>
            (\<forall>i\<in>set (fm_fields fm).
               f_value (controls (handleContactSubmit st fm (Responded status)) i)
                 = f_default (controls st i))
            \<and> body (handleContactSubmit st fm (Responded status))
                = body st @ [next_id st]
            \<and> toasts (handleContactSubmit st fm (Responded status))
                = (toasts st)(next_id st := toast_of success_text ''success'')))"
proof
  assume "200 \<le> status \<and> status \<le> 299"
  then have ok: "response_ok status" by (simp add: response_ok_def)
  note eff = settle_success_effect [OF ok]
  have direct: "(\<forall>i\<in>set (fm_fields (p_form p)).
          f_value (controls (submit_settle (Responded status) p st) i) = f_default (controls st i)
          \<and> (f_default (controls st i) = [] \<longrightarrow>
                f_value (controls (submit_settle (Responded status) p st) i) = []))
      \<and> body (submit_settle (Responded status) p st) = body st @ [next_id st]
      \<and> toasts (submit_settle (Responded status) p st)
          = (toasts st)(next_id st := toast_of success_text ''success'')"
    using eff [of p st] by simp
  have whole: "(\<forall>i\<in>set (fm_fields fm).
               f_value (controls (handleContactSubmit st fm (Responded status)) i)
                 = f_default (controls st i))
            \<and> body (handleContactSubmit st fm (Responded status))
                = body st @ [next_id st]
            \<and> toasts (handleContactSubmit st fm (Responded status))
                = (toasts st)(next_id st := toast_of success_text ''success'')"
    if v: "fst (validateForm st fm)"
  proof -
    let ?p = "\<lparr>p_form = fm, p_originalButtonContent = btn_html st\<rparr>"
    let ?b = "fst (submit_begin st fm)"
    note b = begin_state [OF v]
    have h: "handleContactSubmit st fm (Responded status) = submit_settle (Responded status) ?p ?b"
      using v by (rule handle_valid)
    have d: "f_default (controls ?b i) = f_default (controls st i)" for i
      using b by (simp add: validateForm_controls)
    have t: "toasts ?b = toasts st"
      by (simp add: submit_begin_valid [OF v] validateForm_frame)
    from eff [of ?p ?b] b d t show ?thesis
      unfolding h by (simp add: validateForm_next_id [OF v])
  qed
  from direct whole
  show "(\<forall>i\<in>set (fm_fields (p_form p)).
          f_value (controls (submit_settle (Responded status) p st) i) = f_default (controls st i)
          \<and> (f_default (controls st i) = [] \<longrightarrow>
                f_value (controls (submit_settle (Responded status) p st) i) = []))
      \<and> body (submit_settle (Responded status) p st) = body st @ [next_id st]
      \<and> toasts (submit_settle (Responded status) p st)
          = (toasts st)(next_id st := toast_of success_text ''success'')
      \<and> (fst (validateForm st fm) \<longrightarrow>
            (\<forall>i\<in>set (fm_fields fm).
               f_value (controls (handleContactSubmit st fm (Responded status)) i)
                 = f_default (controls st i))
            \<and> body (handleContactSubmit st fm (Responded status))
                = body st @ [next_id st]
            \<and> toasts (handleContactSubmit st fm (Responded status))
                = (toasts st)(next_id st := toast_of success_text ''success''))"
    by blast
qed

theorem success_resets_and_notifies_once_witness:
  "(200::nat) \<le> 200 \<and> (200::nat) \<le> 299 \<and> fst (validateForm filled two_fields)
   \<and> f_value (controls filled 0) = js ''Umer''
   \<and> f_value (controls (handleContactSubmit filled two_fields (Responded 200)) 0) = []
   \<and> f_value (controls (handleContactSubmit filled two_fields (Responded 200)) 1) = []
   \<and> body (handleContactSubmit filled two_fields (Responded 200)) = [0]
   \<and> toasts (handleContactSubmit filled two_fields (Responded 200)) 0
       = toast_of success_text ''success''"
proof -
  have v0: "f_value (controls filled 0) = js ''Umer''"
    by (simp add: filled_def with_field_def set_field_def)
  from success_resets_and_notifies_once [of 200 _ filled two_fields] valid_filled
  have "(\<forall>i\<in>set (fm_fields two_fields).
               f_value (controls (handleContactSubmit filled two_fields (Responded 200)) i)
                 = f_default (controls filled i))
            \<and> body (handleContactSubmit filled two_fields (Responded 200))
                = body filled @ [next_id filled]
            \<and> toasts (handleContactSubmit filled two_fields (Responded 200))
                = (toasts filled)(next_id filled := toast_of success_text ''success'')"
    by simp
  with valid_filled v0 facts_filled show ?thesis
    by (simp add: next_id_filled)
qed

text \<open>
  C5. A response whose status is outside 200 to 299 presents one error notification with
  the server-rejection text and leaves every control as it is; a rejected request presents
  one error notification with the network-failure text; the two texts differ; settling
  issues no request and schedules nothing but the notification's own dismissal, and a run
  of the handler issues exactly one request whatever the outcome.
\<close>

theorem failures_notify_and_keep_fields:
  "(\<not> (200 \<le> status \<and> status \<le> 299) \<longrightarrow>
      controls (submit_settle (Responded status) p st) = controls st
      \<and> body (submit_settle (Responded status) p st) = body st @ [next_id st]
      \<and> toasts (submit_settle (Responded status) p st)
          = (toasts st)(next_id st := toast_of rejected_text ''error'')
      \<and> queue (submit_settle (Responded status) p st)
          = queue st @ [(now st + 5000, Timeout (next_timer st) (next_id st))]
      \<and> fetch_log (submit_settle (Responded status) p st) = fetch_log st)
   \<and> controls (submit_settle Rejected p st) = controls st
   \<and> body (submit_settle Rejected p st) = body st @ [next_id st]
   \<and> toasts (submit_settle Rejected p st) = (toasts st)(next_id st := toast_of network_text ''error'')
   \<and> queue (submit_settle Rejected p st)
       = queue st @ [(now st + 5000, Timeout (next_timer st) (next_id st))]
   \<and> fetch_log (submit_settle Rejected p st) = fetch_log st
   \<and> toast_of rejected_text ''error'' \<noteq> toast_of network_text ''error''
   \<and> rejected_text \<noteq> network_text
   \<and> (fst (validateForm st fm) \<longrightarrow>
        fetch_log (handleContactSubmit st fm out)
          = fetch_log st @ [\<lparr>r_url = fm_action fm, r_method = ''POST''\<rparr>])"
proof -
  have r: "controls (submit_settle (Responded status) p st) = controls st
      \<and> body (submit_settle (Responded status) p st) = body st @ [next_id st]
      \<and> toasts (submit_settle (Responded status) p st)
          = (toasts st)(next_id st := toast_of rejected_text ''error'')
      \<and> queue (submit_settle (Responded status) p st)
          = queue st @ [(now st + 5000, Timeout (next_timer st) (next_id st))]
      \<and> fetch_log (submit_settle (Responded status) p st) = fetch_log st"
    if "\<not> (200 \<le> status \<and> status \<le> 299)"
  proof -
    from that have "\<not> response_ok status" by (simp add: response_ok_def)
    then have "Responded status = Rejected
        \<or> (\<exists>s. Responded status = Responded s \<and> \<not> response_ok s)" by simp
    from settle_failure_effect [OF this, of p st] show ?thesis by simp
  qed
  have n: "controls (submit_settle Rejected p st) = controls st
      \<and> body (submit_settle Rejected p st) = body st @ [next_id st]
      \<and> toasts (submit_settle Rejected p st) = (toasts st)(next_id st := toast_of network_text ''error'')
      \<and> queue (submit_settle Rejected p st)
          = queue st @ [(now st + 5000, Timeout (next_timer st) (next_id st))]
      \<and> fetch_log (submit_settle Rejected p st) = fetch_log st"
    using settle_failure_effect [of Rejected p st] by simp
  have d: "rejected_text \<noteq> network_text"
    by (simp add: rejected_text_def network_text_def)
  then have d': "toast_of rejected_text ''error'' \<noteq> toast_of network_text ''error''"
    by (simp add: toast_of_def)
  have once: "fetch_log (handleContactSubmit st fm out)
          = fetch_log st @ [\<lparr>r_url = fm_action fm, r_method = ''POST''\<rparr>]"
    if v: "fst (validateForm st fm)"
    unfolding handle_valid [OF v] settle_fetch_log using begin_state [OF v] by simp
  from r n d d' once show ?thesis
    by blast
qed

theorem failures_notify_and_keep_fields_witness:
  "\<not> ((200::nat) \<le> 422 \<and> (422::nat) \<le> 299) \<and> fst (validateForm filled two_fields)
   \<and> f_value (controls (submit_settle (Responded 422) \<lparr>p_form = two_fields, p_originalButtonContent = ''Send Message''\<rparr> filled) 0) = js ''Umer''
   \<and> body (submit_settle (Responded 422) \<lparr>p_form = two_fields, p_originalButtonContent = ''Send Message''\<rparr> filled) = [0]
   \<and> toasts (submit_settle (Responded 422) \<lparr>p_form = two_fields, p_originalButtonContent = ''Send Message''\<rparr> filled) 0
       = toast_of rejected_text ''error''
   \<and> fetch_log (handleContactSubmit filled two_fields (Responded 422))
       = [\<lparr>r_url = fm_action two_fields, r_method = ''POST''\<rparr>]"
proof -
  have v0: "f_value (controls filled 0) = js ''Umer''"
    by (simp add: filled_def with_field_def set_field_def)
  from failures_notify_and_keep_fields [of 422
      "\<lparr>p_form = two_fields, p_originalButtonContent = ''Send Message''\<rparr>" filled two_fields
      "Responded 422"]
    valid_filled v0 facts_filled next_id_filled
  show ?thesis by simp
qed

text \<open>
  C6. When the form is valid the handler disables the submit button and swaps its label
  for the busy label before the request; when the request settles, whatever the outcome
  and whatever the page looks like by then, the button is enabled and carries the content
  it had when the handler started.
\<close>

theorem submit_button_restored:
  "(fst (validateForm st fm) \<longrightarrow>
      btn_disabled (fst (submit_begin st fm))
      \<and> btn_html (fst (submit_begin st fm)) = sending_label
      \<and> snd (submit_begin st fm) = Some \<lparr>p_form = fm, p_originalButtonContent = btn_html st\<rparr>
      \<and> \<not> btn_disabled (handleContactSubmit st fm out)
      \<and> btn_html (handleContactSubmit st fm out) = btn_html st)
   \<and> \<not> btn_disabled (submit_settle out p st')
   \<and> btn_html (submit_settle out p st') = p_originalButtonContent p"
proof -
  have a: "btn_disabled (fst (submit_begin st fm))
      \<and> btn_html (fst (submit_begin st fm)) = sending_label
      \<and> snd (submit_begin st fm) = Some \<lparr>p_form = fm, p_originalButtonContent = btn_html st\<rparr>
      \<and> \<not> btn_disabled (handleContactSubmit st fm out)
      \<and> btn_html (handleContactSubmit st fm out) = btn_html st"
    if v: "fst (validateForm st fm)"
    using begin_state [OF v] settle_button [of out "\<lparr>p_form = fm, p_originalButtonContent = btn_html st\<rparr>" "fst (submit_begin st fm)"]
    unfolding handle_valid [OF v] by simp
  from a settle_button [of out p st'] show ?thesis
    by blast
qed

theorem submit_button_restored_witness:
  "fst (validateForm filled two_fields)
   \<and> btn_disabled (fst (submit_begin filled two_fields))
   \<and> btn_html (fst (submit_begin filled two_fields)) = sending_label
   \<and> \<not> btn_disabled (handleContactSubmit filled two_fields Rejected)
   \<and> btn_html (handleContactSubmit filled two_fields Rejected) = ''Send Message''"
  using submit_button_restored [of filled two_fields Rejected] valid_filled facts_filled
  by simp

subsection \<open>The event loop\<close>

lemma earliest_None: "earliest q = None \<longleftrightarrow> q = []"
  by (induction q) (auto split: option.splits)

lemma earliest_least: "earliest q = Some x \<Longrightarrow> y \<in> set q \<Longrightarrow> fst x \<le> fst y"
  by (induction q arbitrary: x) (auto simp: earliest_None split: option.splits if_splits)

lemma advance_step:
  "earliest (queue st) = Some (due, k) \<Longrightarrow> due \<le> t \<Longrightarrow> advance st t = advance (pop st due k) t"
  by (subst advance.simps) (simp add: pop_def)

lemma advance_stop:
  "\<forall>x\<in>set (queue st). t < fst x \<Longrightarrow> advance st t = st\<lparr>now := max (now st) t\<rparr>"
proof (cases "earliest (queue st)")
  case None
  then show ?thesis by (subst advance.simps) simp
next
  case (Some x)
  assume a: "\<forall>x\<in>set (queue st). t < fst x"
  from Some have "x \<in> set (queue st)" by (rule earliest_mem)
  with a have "t < fst x" by blast
  with Some show ?thesis by (subst advance.simps) (simp add: case_prod_unfold)
qed

lemma advance_invariant:
  assumes init: "I st"
    and step: "\<And>s due k. I s \<Longrightarrow> earliest (queue s) = Some (due, k) \<Longrightarrow> due \<le> t \<Longrightarrow> I (pop s due k)"
  shows "\<exists>s. I s \<and> (\<forall>x\<in>set (queue s). t < fst x) \<and> advance st t = s\<lparr>now := max (now s) t\<rparr>"
  using init step
proof (induction st t rule: advance.induct)
  case (1 st t)
  show ?case
  proof (cases "earliest (queue st)")
    case None
    then have "queue st = []" by (simp add: earliest_None)
    then have "\<forall>x\<in>set (queue st). t < fst x" by simp
    with "1.prems"(1) advance_stop show ?thesis by blast
  next
    case (Some x)
    obtain due k where x: "x = (due, k)" by (cases x)
    with Some have e: "earliest (queue st) = Some (due, k)" by simp
    show ?thesis
    proof (cases "due \<le> t")
      case True
      have i: "I (pop st due k)"
        using "1.prems"(1) e True by (rule "1.prems"(2))
      have "\<exists>s. I s \<and> (\<forall>x\<in>set (queue s). t < fst x)
          \<and> advance (pop st due k) t = s\<lparr>now := max (now s) t\<rparr>"
        unfolding pop_def
      proof (rule "1.IH" [OF e refl True])
        show "I (run_callback (st\<lparr>queue := remove1 (due, k) (queue st), now := max (now st) due\<rparr>) k)"
          using i by (simp add: pop_def)
      next
        fix s due' k'
        assume "I s" and "earliest (queue s) = Some (due', k')" and "due' \<le> t"
        then show "I (pop s due' k')" by (rule "1.prems"(2))
      qed
      then show ?thesis
        by (simp add: advance_step [OF e True])
    next
      case False
      have "\<forall>y\<in>set (queue st). t < fst y"
      proof
        fix y assume "y \<in> set (queue st)"
        with e have "due \<le> fst y" using earliest_least by fastforce
        with False show "t < fst y" by simp
      qed
      with "1.prems"(1) advance_stop show ?thesis by blast
    qed
  qed
qed

lemma pop_Timeout:
  "pop s due (Timeout h n) =
     s\<lparr>queue := remove1 (due, Timeout h n) (queue s)
                @ [(frame s (max (now s) due + exit_duration), Tween n)],
       now := max (now s) due\<rparr>"
  by (simp add: pop_def dismissNotification_def)

lemma pop_Tween:
  "pop s due (Tween n) =
     s\<lparr>queue := remove1 (due, Tween n) (queue s), now := max (now s) due,
       body := remove1 n (body s)\<rparr>"
  by (simp add: pop_def onComplete_def removeChild_def remove1_idem)






lemma wf_blank_page: "wf_page blank_page"
  by (simp add: wf_page_def blank_page_def)

lemma callback_ok_mono:
  "callback_ok st k \<Longrightarrow> next_id st \<le> next_id st' \<Longrightarrow>
   (\<forall>n < next_id st. listeners st' n = listeners st n) \<Longrightarrow> callback_ok st' k"
  by (cases k) auto

lemma wf_showNotification:
  assumes w: "wf_page st"
  shows "wf_page (showNotification st m ty)"
proof -
  let ?st' = "showNotification st m ty"
  have fresh: "next_id st \<notin> set (body st)"
    using w by (auto simp: wf_page_def)
  have old: "callback_ok ?st' (snd x)" if "x \<in> set (queue st)" for x
  proof (rule callback_ok_mono)
    show "callback_ok st (snd x)" using w that by (simp add: wf_page_def)
    show "next_id st \<le> next_id ?st'" by (simp add: showNotification_eq)
    show "\<forall>n<next_id st. listeners ?st' n = listeners st n" by (simp add: showNotification_eq)
  qed
  have new: "callback_ok ?st' (Timeout (next_timer st) (next_id st))"
    by (simp add: showNotification_eq)
  have q: "\<forall>x\<in>set (queue ?st'). callback_ok ?st' (snd x)"
    using old new by (auto simp: showNotification_eq [of st m ty, THEN arg_cong, of queue])
  have l: "\<forall>n h. listeners ?st' n = Some h \<longrightarrow> n < next_id ?st'"
    using w by (auto simp: wf_page_def showNotification_eq less_Suc_eq)
  have b: "distinct (body ?st') \<and> (\<forall>n\<in>set (body ?st'). n < next_id ?st')"
    using w fresh by (auto simp: wf_page_def showNotification_eq less_Suc_eq)
  from b q l show ?thesis
    unfolding wf_page_def by blast
qed

lemma click_eq:
  "listeners st n = Some h \<Longrightarrow>
   click st n =
     st\<lparr>queue := filter (\<lambda>(d, k). \<not> is_timeout h k) (queue st)
                 @ [(frame st (now st + exit_duration), Tween n)]\<rparr>"
  by (simp add: click_def clearTimeout_def dismissNotification_def)

lemma click_none: "listeners st n = None \<Longrightarrow> click st n = st"
  by (simp add: click_def)

lemma wf_click:
  assumes w: "wf_page st"
  shows "wf_page (click st n)"
proof (cases "listeners st n")
  case None
  with w show ?thesis by (simp add: click_none)
next
  case (Some h)
  from w Some have n: "n < next_id st" by (auto simp: wf_page_def)
  have "callback_ok (click st n) (snd x)" if "x \<in> set (queue st)" for x
    using w that by (cases "snd x") (auto simp: wf_page_def click_eq [OF Some])
  with w n show ?thesis
    by (auto simp: wf_page_def click_eq [OF Some])
qed

lemma wf_pop:
  assumes w: "wf_page s" and e: "earliest (queue s) = Some (due, k)"
  shows "wf_page (pop s due k)"
proof -
  from e have mem: "(due, k) \<in> set (queue s)" by (rule earliest_mem)
  with w have ok: "callback_ok s k" by (auto simp: wf_page_def)
  have old: "x \<in> set (queue s)" if "x \<in> set (remove1 (due, k) (queue s))" for x
    using that set_remove1_subset [of "(due, k)" "queue s"] by blast
  show ?thesis
  proof (cases k)
    case (Timeout h n)
    have "callback_ok (pop s due k) (snd x)" if "x \<in> set (queue s)" for x
      using w that by (cases "snd x") (auto simp: wf_page_def Timeout pop_Timeout)
    with w ok old show ?thesis
      by (auto simp: wf_page_def Timeout pop_Timeout)
  next
    case (Tween n)
    have "callback_ok (pop s due k) (snd x)" if "x \<in> set (queue s)" for x
      using w that by (cases "snd x") (auto simp: wf_page_def Tween pop_Tween)
    with w ok old show ?thesis
      by (auto simp: wf_page_def Tween pop_Tween)
  qed
qed

lemma wf_advance:
  assumes "wf_page st"
  shows "wf_page (advance st t)"
proof -
  have "\<exists>s. wf_page s \<and> (\<forall>x\<in>set (queue s). t < fst x) \<and> advance st t = s\<lparr>now := max (now s) t\<rparr>"
    using assms by (rule advance_invariant) (rule wf_pop)
  then obtain s where w: "wf_page s" and a: "advance st t = s\<lparr>now := max (now s) t\<rparr>"
    by blast
  have "callback_ok (s\<lparr>now := max (now s) t\<rparr>) k = callback_ok s k" for k
    by (cases k) auto
  with w show ?thesis
    unfolding a by (simp add: wf_page_def)
qed

lemma no_timer_pop:
  assumes q: "no_timer n s"
  shows "no_timer n (pop s due k)"
proof -
  have old: "x \<in> set (queue s)" if "x \<in> set (remove1 (due, k) (queue s))" for x
    using that set_remove1_subset [of "(due, k)" "queue s"] by blast
  show ?thesis
    using q old by (cases k) (auto simp: no_timer_def pop_Timeout pop_Tween)
qed

lemma no_timer_advance:
  assumes "no_timer n st"
  shows "no_timer n (advance st t)"
proof -
  have "\<exists>s. no_timer n s \<and> (\<forall>x\<in>set (queue s). t < fst x) \<and> advance st t = s\<lparr>now := max (now s) t\<rparr>"
    using assms by (rule advance_invariant) (rule no_timer_pop)
  then obtain s where "no_timer n s" and "advance st t = s\<lparr>now := max (now s) t\<rparr>"
    by blast
  then show ?thesis by (simp add: no_timer_def)
qed

lemma no_timer_click:
  assumes w: "wf_page st" and l: "listeners st n = Some h"
  shows "no_timer n (click st n)"
  unfolding no_timer_def
proof (intro ballI allI)
  fix x h'
  assume x: "x \<in> set (queue (click st n))"
  show "snd x \<noteq> Timeout h' n"
  proof
    assume t: "snd x = Timeout h' n"
    from x have "x \<in> set (filter (\<lambda>(d, k). \<not> is_timeout h k) (queue st))
        \<or> x = (frame st (now st + exit_duration), Tween n)"
      by (auto simp: click_eq [OF l])
    with t have m: "x \<in> set (queue st)" and keep: "\<not> is_timeout h (snd x)"
      by (auto simp: case_prod_unfold)
    from w m t have "callback_ok st (Timeout h' n)" by (auto simp: wf_page_def)
    with l have "h' = h" by simp
    with t keep show False by simp
  qed
qed

lemma uncaught_pop: "uncaught (pop s due k) = uncaught s"
  by (cases k) (simp_all add: pop_Timeout pop_Tween)

lemma uncaught_advance: "uncaught (advance st t) = uncaught st"
proof -
  have "\<exists>s. uncaught s = uncaught st \<and> (\<forall>x\<in>set (queue s). t < fst x)
      \<and> advance st t = s\<lparr>now := max (now s) t\<rparr>"
    by (rule advance_invariant) (simp_all add: uncaught_pop)
  then obtain s where "uncaught s = uncaught st" and "advance st t = s\<lparr>now := max (now s) t\<rparr>"
    by blast
  then show ?thesis by simp
qed

lemma onComplete_eq: "onComplete st n = st\<lparr>body := remove1 n (body st)\<rparr>"
  by (simp add: onComplete_def removeChild_def remove1_idem)








text \<open>
  C8, as amended. A click on a notification cancels its pending timeout and starts the
  exit transition, always: after a click no timeout of that notification is pending at any
  later time, so the timer never starts the transition after a click; but a click that
  comes after the timeout has fired, or a second click, starts the transition again.
  Starting the transition removes nothing: the element is removed when an exit transition
  completes, and the completion does nothing when the element is detached already, so a
  second completion is a no-op and no removal error ever escapes a callback.
\<close>

theorem dismissal_and_removal:
  "(listeners st n = Some h \<longrightarrow>
      queue (click st n)
        = filter (\<lambda>(d, k). \<not> is_timeout h k) (queue st)
            @ [(frame st (now st + 400), Tween n)]
      \<and> body (click st n) = body st)
   \<and> (wf_page st \<and> listeners st n = Some h \<longrightarrow>
        (\<forall>x\<in>set (queue (advance (click st n) t)). \<forall>h'. snd x \<noteq> Timeout h' n))
   \<and> body (dismissNotification st n) = body st
   \<and> body (run_callback st (Timeout h n)) = body st
   \<and> (n \<in> set (body st) \<longrightarrow> body (run_callback st (Tween n)) = remove1 n (body st))
   \<and> (n \<notin> set (body st) \<longrightarrow> run_callback st (Tween n) = st)
   \<and> (distinct (body st) \<longrightarrow> onComplete (onComplete st n) n = onComplete st n)
   \<and> uncaught (onComplete st n) = uncaught st
   \<and> uncaught (click st n) = uncaught st
   \<and> uncaught (advance st t) = uncaught st"
proof -
  have c: "queue (click st n)
        = filter (\<lambda>(d, k). \<not> is_timeout h k) (queue st)
            @ [(frame st (now st + 400), Tween n)]
      \<and> body (click st n) = body st"
    if "listeners st n = Some h"
    by (simp add: click_eq [OF that] exit_duration_def)
  have never: "\<forall>x\<in>set (queue (advance (click st n) t)). \<forall>h'. snd x \<noteq> Timeout h' n"
    if "wf_page st \<and> listeners st n = Some h"
  proof -
    from that have "no_timer n (click st n)" by (simp add: no_timer_click)
    then have "no_timer n (advance (click st n) t)" by (rule no_timer_advance)
    then show ?thesis by (simp add: no_timer_def)
  qed
  have start: "body (dismissNotification st n) = body st \<and> body (run_callback st (Timeout h n)) = body st"
    by (simp add: dismissNotification_def)
  have fin: "body (run_callback st (Tween n)) = remove1 n (body st)" if "n \<in> set (body st)"
    by (simp add: onComplete_eq)
  have skip: "run_callback st (Tween n) = st" if "n \<notin> set (body st)"
    using that by (simp add: onComplete_def)
  have idem: "onComplete (onComplete st n) n = onComplete st n" if "distinct (body st)"
    using that by (simp add: onComplete_eq remove1_idem)
  have u: "uncaught (onComplete st n) = uncaught st \<and> uncaught (click st n) = uncaught st"
    by (cases "listeners st n") (simp_all add: onComplete_eq click_none click_eq)
  from c never start fin skip idem u uncaught_advance [of st t] show ?thesis
    by blast
qed

lemma shown_state:
  "listeners shown 0 = Some 0 \<and> body shown = [0] \<and> queue shown = [(3000, Timeout 0 0)]
   \<and> now shown = 0 \<and> uncaught shown = [] \<and> frame shown 400 = 400"
  by (simp add: shown_def showNotification_eq blank_page_def dismiss_delay_def)

theorem dismissal_and_removal_witness:
  "wf_page shown \<and> listeners shown 0 = Some 0 \<and> 0 \<in> set (body shown) \<and> distinct (body shown)
   \<and> queue (click shown 0) = [(400, Tween 0)]
   \<and> body (click shown 0) = [0]
   \<and> body (run_callback (click shown 0) (Tween 0)) = []
   \<and> uncaught (advance (click shown 0) 5000) = []"
proof -
  have w: "wf_page shown"
    unfolding shown_def using wf_blank_page by (rule wf_showNotification)
  have b: "body (click shown 0) = [0]"
    using shown_state by (simp add: click_eq)
  from dismissal_and_removal [of shown 0 0 5000] shown_state
  have 1: "queue (click shown 0) = [(400, Tween 0)]"
    by simp
  from dismissal_and_removal [of "click shown 0" 0 0 5000] b
  have 2: "body (run_callback (click shown 0) (Tween 0)) = []"
    by simp
  from dismissal_and_removal [of "click shown 0" 0 0 5000] dismissal_and_removal [of shown 0 0 5000]
    shown_state
  have 3: "uncaught (advance (click shown 0) 5000) = []"
    by simp
  from w shown_state b 1 2 3 show ?thesis
    by simp
qed

text \<open>
  C8 as stated lets at most one of the timer and the click start the exit transition. The
  timeout of a success notification fires at 3000 ms; a click at 3100 ms, while the
  element is still attached, starts a second exit transition (with animation frames 16 ms
  apart the two complete at 3408 ms and 3504 ms). Two clicks in a row do the same.
\<close>

theorem timer_then_click_counterexample:
  "queue shown = [(3000, Timeout 0 0)]
   \<and> queue (advance shown 3100) = [(3408, Tween 0)]
   \<and> body (advance shown 3100) = [0]
   \<and> queue (click (advance shown 3100) 0) = [(3408, Tween 0), (3504, Tween 0)]
   \<and> queue (click (click shown 0) 0) = [(400, Tween 0), (400, Tween 0)]"
  by (simp add: shown_def showNotification_eq blank_page_def dismiss_delay_def
        advance.simps dismissNotification_def exit_duration_def onComplete_def removeChild_def
        click_def clearTimeout_def)

end
